theory Spec2Isabelle
  imports Main "HOL-Library.AList"
begin

section \<open>The pipeline-parallel transformer driver (\<open>transformer.py\<close>)\<close>

text \<open>
  The driver \<open>test_encoder\<close> of
  \<open>external/deepspeed/DeepSpeedExamples/pipeline_parallelism/transformer.py\<close> sets up the
  rendezvous handler, builds the encoder, lays its layers out as a list, turns the
  \<open>--parts\<close> argument into partition boundaries and hands everything to DeepSpeed's
  \<open>PipelineModule\<close>. Python integers are unbounded (\<open>int\<close>); every exception the driver
  can raise in the modelled lines is a value of \<open>py_error\<close>, and a function that can raise
  returns \<open>py_error + 'a\<close>.
\<close>

subsection \<open>Exceptions\<close>

datatype py_error =
    KeyError string
  | ValueError
  | TypeError
  | IndexError
  | AssertionError
  | JSONDecodeError

subsection \<open>The layer list (lines 72-74, 181-186, 248-250)\<close>

text \<open>
  \<open>clones(layer, N)\<close> is \<open>[copy.deepcopy(module) for _ in range(N)]\<close>: \<open>N\<close> copies, none
  when \<open>N \<le> 0\<close>. Line 250 appends the encoder's final \<open>LayerNorm\<close> and the reduction
  \<open>lambda x: x.sum(-1)\<close>.
\<close>

datatype layer = EncoderLayer | Norm | SumReduce

definition clones :: "'a \<Rightarrow> int \<Rightarrow> 'a list" where
  "clones module N = replicate (nat N) module"

definition layers :: "int \<Rightarrow> layer list" where
  "layers N = clones EncoderLayer N @ [Norm, SumReduce]"

subsection \<open>Custom partition boundaries (lines 257-262)\<close>

text \<open>
  \<open>args.parts.split(',')\<close>: the pieces between the commas; a string without a comma is one
  piece, and the empty string splits into one empty piece.
\<close>

fun split_comma :: "string \<Rightarrow> string list" where
  "split_comma [] = [[]]"
| "split_comma (c # cs) =
     (if c = CHR '','' then [] # split_comma cs
      else (case split_comma cs of
              [] \<Rightarrow> [[c]]
            | p # ps \<Rightarrow> (c # p) # ps))"

text \<open>
  \<open>[int(p) for p in ...]\<close>: Python's \<open>int\<close> on a string is a library function, taken as the
  parameter \<open>py_int\<close> (\<open>None\<close> where it raises \<open>ValueError\<close>). The first piece that does not
  parse raises.
\<close>

fun parse_parts :: "(string \<Rightarrow> int option) \<Rightarrow> string list \<Rightarrow> py_error + int list" where
  "parse_parts py_int [] = Inr []"
| "parse_parts py_int (p # ps) =
     (case py_int p of
        None \<Rightarrow> Inl ValueError
      | Some n \<Rightarrow> (case parse_parts py_int ps of
                    Inl e \<Rightarrow> Inl e
                  | Inr ns \<Rightarrow> Inr (n # ns)))"

text \<open>
  Line 261, \<open>parts[-1] += 2\<close>: the last element grows by two; on an empty list the index
  \<open>-1\<close> raises \<open>IndexError\<close>.
\<close>

definition widen_last :: "int list \<Rightarrow> py_error + int list" where
  "widen_last parts =
     (if parts = [] then Inl IndexError
      else Inr (parts[length parts - 1 := parts ! (length parts - 1) + 2]))"

text \<open>
  Line 262, \<open>[0] + [sum(parts[:i]) + p for i, p in enumerate(parts)]\<close>.
\<close>

definition boundaries :: "int list \<Rightarrow> int list" where
  "boundaries parts = 0 # map (\<lambda>(i, p). sum_list (take i parts) + p) (enumerate 0 parts)"

text \<open>
  Lines 260-262 on the parsed sizes: the assertion \<open>sum(parts) == args.N\<close> (assertions
  are enabled unless the interpreter runs with \<open>-O\<close>), the widening of the last size and the
  conversion to boundaries, in the order of the source.
\<close>

definition custom_partitions :: "int list \<Rightarrow> int \<Rightarrow> py_error + int list" where
  "custom_partitions sizes N =
     (if sum_list sizes \<noteq> N then Inl AssertionError
      else (case widen_last sizes of
              Inl e \<Rightarrow> Inl e
            | Inr widened \<Rightarrow> Inr (boundaries widened)))"

subsection \<open>The arguments of \<open>PipelineModule\<close> (lines 257-269)\<close>

datatype partition_method = Uniform | Custom

record pipeline_module =
  pm_layers :: "layer list"
  pm_num_stages :: int
  pm_partition_method :: partition_method
  pm_custom_partitions :: "int list"

text \<open>
  Lines 257-269: \<open>parts\<close> stays \<open>[]\<close> when \<open>args.parts\<close> is the empty string; otherwise it
  is parsed, checked and converted. The module is constructed from the layer list of line
  250, with \<open>'uniform' if not parts else 'custom'\<close>.
\<close>

definition make_model ::
  "(string \<Rightarrow> int option) \<Rightarrow> string \<Rightarrow> int \<Rightarrow> int \<Rightarrow> py_error + pipeline_module" where
  "make_model py_int args_parts N pipe_parallel_size =
     (case (if args_parts = [] then Inr []
            else (case parse_parts py_int (split_comma args_parts) of
                    Inl e \<Rightarrow> Inl e
                  | Inr sizes \<Rightarrow> custom_partitions sizes N)) of
        Inl e \<Rightarrow> Inl e
      | Inr parts \<Rightarrow>
          Inr \<lparr> pm_layers = layers N,
                pm_num_stages = pipe_parallel_size,
                pm_partition_method = (if parts = [] then Uniform else Custom),
                pm_custom_partitions = parts \<rparr>)"

text \<open>
  Lines 263-283 after the partition: \<open>deepspeed.initialize\<close> and the training loop consume
  the module. They are DeepSpeed's code, taken as the parameter \<open>train\<close>; an exception
  raised before the module exists propagates and \<open>train\<close> is never entered.
\<close>

definition run_training ::
  "(string \<Rightarrow> int option) \<Rightarrow> string \<Rightarrow> int \<Rightarrow> int \<Rightarrow>
   (pipeline_module \<Rightarrow> py_error + 'r) \<Rightarrow> py_error + 'r" where
  "run_training py_int args_parts N pipe_parallel_size train =
     (case make_model py_int args_parts N pipe_parallel_size of
        Inl e \<Rightarrow> Inl e
      | Inr model \<Rightarrow> train model)"

subsection \<open>The rendezvous parameters (lines 225-239)\<close>

text \<open>
  The value \<open>json.loads\<close> returns. A JSON object is a Python \<open>dict\<close>, kept here as the list
  of its items in insertion order; the payload of a float is never inspected.
\<close>

typedecl pyfloat

datatype json =
    JNull
  | JBool bool
  | JInt int
  | JFloat pyfloat
  | JStr string
  | JList "json list"
  | JDict "(string \<times> json) list"

text \<open>\<open>os.environ[k]\<close> raises \<open>KeyError\<close> when the variable is not set.\<close>

definition environ_get :: "(string \<rightharpoonup> string) \<Rightarrow> string \<Rightarrow> py_error + string" where
  "environ_get environ k = (case environ k of None \<Rightarrow> Inl (KeyError k) | Some v \<Rightarrow> Inr v)"

text \<open>\<open>int(os.environ[k])\<close>, as on lines 228-229.\<close>

definition environ_int ::
  "(string \<Rightarrow> int option) \<Rightarrow> (string \<rightharpoonup> string) \<Rightarrow> string \<Rightarrow> py_error + int" where
  "environ_int py_int environ k =
     (case environ_get environ k of
        Inl e \<Rightarrow> Inl e
      | Inr v \<Rightarrow> (case py_int v of None \<Rightarrow> Inl ValueError | Some n \<Rightarrow> Inr n))"

text \<open>
  Line 231, \<open>rdzv_configs['last_call_timeout'] = 1\<close>: item assignment with a string key.
  On a \<open>dict\<close> the key keeps its place when present and is appended otherwise; every other
  JSON value (list, string, number, boolean, \<open>None\<close>) raises \<open>TypeError\<close>. The result is the
  items of the updated \<open>dict\<close>.
\<close>

fun setitem :: "json \<Rightarrow> string \<Rightarrow> json \<Rightarrow> py_error + (string \<times> json) list" where
  "setitem (JDict items) k v = Inr (AList.update k v items)"
| "setitem _ k v = Inl TypeError"

text \<open>
  Lines 232-239: the call \<open>RendezvousParameters(backend=..., endpoint=..., run_id=...,
  min_nodes=..., max_nodes=..., **rdzv_configs)\<close>. A key of \<open>rdzv_configs\<close> that repeats one
  of the keywords written out in the call raises \<open>TypeError\<close> (multiple values for a keyword
  argument). The record holds the arguments the call passes: the five keywords and, in
  \<open>rp_config\<close>, the items of \<open>rdzv_configs\<close>, from which the handler reads its timeouts.
  The constructor is PyTorch's; its own checks of the five keywords are not part of this
  model.
\<close>

record rendezvous_parameters =
  rp_backend :: string
  rp_endpoint :: string
  rp_run_id :: string
  rp_min_nodes :: int
  rp_max_nodes :: int
  rp_config :: "(string \<times> json) list"

definition call_keywords :: "string list" where
  "call_keywords = [''backend'', ''endpoint'', ''run_id'', ''min_nodes'', ''max_nodes'']"

definition rdzv_parameters ::
  "(string \<Rightarrow> int option) \<Rightarrow> (string \<Rightarrow> json option) \<Rightarrow> (string \<rightharpoonup> string) \<Rightarrow>
   py_error + rendezvous_parameters" where
  "rdzv_parameters py_int json_loads environ =
     (case environ_get environ ''PROJECT_PACTUM_ENDPOINT'' of
        Inl e \<Rightarrow> Inl e
      | Inr rdzv_endpoint \<Rightarrow>
     (case environ_get environ ''PROJECT_PACTUM_RUN_ID'' of
        Inl e \<Rightarrow> Inl e
      | Inr run_id \<Rightarrow>
     (case environ_int py_int environ ''PROJECT_PACTUM_MIN_NODES'' of
        Inl e \<Rightarrow> Inl e
      | Inr min_nodes \<Rightarrow>
     (case environ_int py_int environ ''PROJECT_PACTUM_MAX_NODES'' of
        Inl e \<Rightarrow> Inl e
      | Inr max_nodes \<Rightarrow>
     (case environ_get environ ''PROJECT_PACTUM_RDZV_CONFIGS'' of
        Inl e \<Rightarrow> Inl e
      | Inr blob \<Rightarrow>
     (case json_loads blob of
        None \<Rightarrow> Inl JSONDecodeError
      | Some loaded \<Rightarrow>
     (case setitem loaded ''last_call_timeout'' (JInt 1) of
        Inl e \<Rightarrow> Inl e
      | Inr rdzv_configs \<Rightarrow>
          if list_ex (\<lambda>k. k \<in> set call_keywords) (map fst rdzv_configs) then Inl TypeError
          else Inr \<lparr> rp_backend = ''etcd-v2'',
                     rp_endpoint = rdzv_endpoint,
                     rp_run_id = run_id,
                     rp_min_nodes = min_nodes,
                     rp_max_nodes = max_nodes,
                     rp_config = rdzv_configs \<rparr>)))))))"

section \<open>The coordinator components that the driver calls\<close>

text \<open>
  The driver hands its data to four components whose code is outside the files at hand:
  the rendezvous handler, the process topology, the pipeline module's uniform partitioning
  and the engine's redundancy handling. Each is modelled from its specification; workers
  are values of an arbitrary type \<open>'w\<close>, sizes and ranks are natural numbers.
\<close>

text \<open>
  Modelled from the spec: the fatal errors of the coordinator's taxonomy that an operation
  can fail with; the exception classes of the missing components are not known.
\<close>

datatype fatal =
    RendezvousTimeout
  | CoordinationUnavailable
  | TopologyMismatch
  | PartitionSizeMismatch

subsection \<open>Topology Builder\<close>

text \<open>
  Modelled from the spec: a GridCoordinate, the pair \<open>(pipeline_rank, data_parallel_rank)\<close>;
  the coordinates of the missing class \<open>PipeDataParallelTopology\<close>.
\<close>

type_synonym grid_coordinate = "nat \<times> nat"

text \<open>
  Modelled from the spec: the Topology Builder \<open>build(decision, pipeline_size,
  data_parallel_size)\<close>; the class \<open>PipeDataParallelTopology\<close> that line 255 constructs is
  missing. It fails with \<open>TopologyMismatch\<close> unless \<open>P * D == len(decision)\<close>, and gives the
  \<open>i\<close>-th worker in decision order \<open>pipeline_rank = i // D\<close>,
  \<open>data_parallel_rank = i % D\<close>.
\<close>

definition build :: "'w list \<Rightarrow> nat \<Rightarrow> nat \<Rightarrow> fatal + ('w \<times> grid_coordinate) list" where
  "build decision P D =
     (if P * D \<noteq> length decision then Inl TopologyMismatch
      else Inr (map (\<lambda>(i, w). (w, (i div D, i mod D))) (enumerate 0 decision)))"

subsection \<open>Stage Partitioner, uniform mode\<close>

text \<open>
  Modelled from the spec: the ranges of a StagePartition, half-open \<open>(start, end)\<close> and
  contiguous, laid end to end from a start index, one per stage size; the partitioning
  inside \<open>PipelineModule\<close> is missing.
\<close>

fun ranges_from :: "nat \<Rightarrow> nat list \<Rightarrow> (nat \<times> nat) list" where
  "ranges_from start [] = []"
| "ranges_from start (n # ns) = (start, start + n) # ranges_from (start + n) ns"

text \<open>
  Modelled from the spec: the uniform mode of \<open>partition(layer_count, pipeline_size)\<close>; the
  partitioning inside \<open>PipelineModule\<close> (called on line 263 with
  \<open>partition_method='uniform'\<close>) is missing. The spec asks for \<open>P\<close> parts as even as
  possible, by a deterministic rule that depends on \<open>(N, P)\<close> only, and leaves the rule
  open; here the first \<open>N mod P\<close> stages take \<open>N div P + 1\<close> layers and the others
  \<open>N div P\<close>.
\<close>

definition uniform_sizes :: "nat \<Rightarrow> nat \<Rightarrow> nat list" where
  "uniform_sizes N P = replicate (N mod P) (N div P + 1) @ replicate (P - N mod P) (N div P)"

text \<open>
  Modelled from the spec: \<open>partition(layer_count, pipeline_size)\<close> without custom sizes,
  the ranges of the uniform sizes from index 0; the partitioning inside \<open>PipelineModule\<close>
  is missing. A pipeline of no stages has no range.
\<close>

definition uniform_partition :: "nat \<Rightarrow> nat \<Rightarrow> (nat \<times> nat) list" where
  "uniform_partition N P = (if P = 0 then [] else ranges_from 0 (uniform_sizes N P))"

text \<open>
  Modelled from the spec: the size of a part, the number of layer indices in its range.
\<close>

definition range_size :: "nat \<times> nat \<Rightarrow> nat" where
  "range_size r = snd r - fst r"

subsection \<open>Redundancy and Recovery Manager\<close>

text \<open>
  Modelled from the spec: what the Redundancy and Recovery Manager finds for one
  RedundancyGroup; the engine that \<open>deepspeed.initialize\<close> builds from
  \<open>redundancy_level\<close> (lines 274-280) is missing. A loss is recoverable, with the member
  promoted to primary, or unrecoverable.
\<close>

datatype 'w loss = Intact | RecoverableLoss 'w | UnrecoverableLoss

text \<open>
  Modelled from the spec: the RedundancyGroups of a decision on a grid of \<open>P\<close> stages and
  \<open>D\<close> data-parallel slots, at redundancy level \<open>R\<close>; the engine's grouping is missing.
  In the row-major assignment the workers of pipeline rank \<open>p\<close> are the \<open>D\<close> consecutive
  entries of the decision from index \<open>p * D\<close>. Of these slots \<open>R + 1\<close> consecutive ones, from
  the primary in slot 0 on, are reserved as redundant copies and form the group of rank
  \<open>p\<close>; a grid with fewer than \<open>R + 1\<close> slots leaves a smaller group.
\<close>

definition redundancy_groups :: "nat \<Rightarrow> nat \<Rightarrow> nat \<Rightarrow> 'w list \<Rightarrow> 'w list list" where
  "redundancy_groups P D R decision =
     map (\<lambda>p. take (R + 1) (take D (drop (p * D) decision))) [0..<P]"

text \<open>
  Modelled from the spec: the members of a RedundancyGroup that survive, those still in
  the new decision; the engine's membership tracking is missing. A group is the list of
  the workers able to serve one pipeline rank, the primary first.
\<close>

definition survivors :: "'w list \<Rightarrow> 'w list \<Rightarrow> 'w list" where
  "survivors new_decision grp = filter (\<lambda>w. w \<in> set new_decision) grp"

text \<open>
  Modelled from the spec: the loss assessment of one group; the engine's recovery code is
  missing. The loss is unrecoverable when the group is fully empty; if at least one
  member survives a loss, a surviving member is promoted to primary.
\<close>

definition assess :: "'w list \<Rightarrow> 'w list \<Rightarrow> 'w loss" where
  "assess new_decision grp =
     (case survivors new_decision grp of
        [] \<Rightarrow> UnrecoverableLoss
      | s # _ \<Rightarrow> if survivors new_decision grp = grp then Intact else RecoverableLoss s)"

text \<open>
  Modelled from the spec: the RecoveryPlan, with its flag for a job-fatal loss and its list
  of promotions, a pipeline rank with the member promoted; the engine's plan is missing.
\<close>

record 'w recovery_plan =
  unrecoverable :: bool
  promotions :: "(nat \<times> 'w) list"

text \<open>
  Modelled from the spec: the promotion that a recoverable loss at a pipeline rank
  contributes to the plan; the engine's recovery code is missing.
\<close>

fun promotion :: "nat \<times> 'w loss \<Rightarrow> (nat \<times> 'w) list" where
  "promotion (stage, RecoverableLoss s) = [(stage, s)]"
| "promotion (stage, _) = []"

text \<open>
  Modelled from the spec: \<open>plan(old_decision, new_decision, redundancy_level, eager)\<close>; the
  engine's recovery code is missing. The grid dimensions, which the coordinator keeps in
  its configuration, are passed with the decisions. Without an old decision nothing is
  lost. Otherwise the group of every pipeline rank of the old decision is assessed against
  the new decision: \<open>unrecoverable\<close> is set when some group is fully empty, and every
  recoverable loss contributes its promotion. The recovery mode \<open>eager\<close> decides when the
  plan is acted on, not what it holds.
\<close>

definition plan ::
  "nat \<Rightarrow> nat \<Rightarrow> 'w list option \<Rightarrow> 'w list \<Rightarrow> nat \<Rightarrow> bool \<Rightarrow> 'w recovery_plan" where
  "plan P D old_decision new_decision R eager =
     (case old_decision of
        None \<Rightarrow> \<lparr> unrecoverable = False, promotions = [] \<rparr>
      | Some decision \<Rightarrow>
          (let losses = map (assess new_decision) (redundancy_groups P D R decision)
           in \<lparr> unrecoverable = list_ex (\<lambda>l. l = UnrecoverableLoss) losses,
                promotions = concat (map promotion (enumerate 0 losses)) \<rparr>))"

text \<open>
  Modelled from the spec: the invariant of a RedundancyGroup in the data model, a set of at
  most \<open>R + 1\<close> workers that all share one pipeline rank; the engine's groups are missing.
  The rank of a worker is read from the mapping of the Topology Builder.
\<close>

definition redundancy_group ::
  "nat \<Rightarrow> ('w \<times> grid_coordinate) list \<Rightarrow> nat \<Rightarrow> 'w list \<Rightarrow> bool" where
  "redundancy_group R topology p grp \<longleftrightarrow>
     distinct grp \<and> length grp \<le> R + 1 \<and>
     list_all (\<lambda>w. map_option fst (map_of topology w) = Some p) grp"

subsection \<open>Rendezvous Engine\<close>

text \<open>
  Modelled from the spec: what happens in a rendezvous round; the handler that
  \<open>create_rdzv_handler\<close> returns (line 240) is missing. The coordination store serialises
  a round into one history of events: a worker registers, or a second passes.
\<close>

datatype 'w event = Register 'w | Tick

text \<open>
  Modelled from the spec: the options of the rendezvous, the timeouts in seconds; the
  handler's configuration is missing.
\<close>

record rdzv_config =
  min_nodes :: nat
  max_nodes :: nat
  last_call_timeout :: nat
  setup_timeout :: nat

text \<open>
  Modelled from the spec: an open round, with the workers registered so far in
  registration order, the seconds since it opened and the seconds spent in the last-call
  window; the handler's state is missing.
\<close>

record 'w rdzv_round =
  registered :: "'w list"
  elapsed :: nat
  last_call_elapsed :: nat

text \<open>
  Modelled from the spec: a round is open, closed with its GlobalDecision, or failed; the
  handler's state is missing.
\<close>

datatype 'w status = Open "'w rdzv_round" | Closed "'w list" | Failed fatal

text \<open>
  Modelled from the spec: one event of the protocol of \<open>join\<close>; the handler's code is
  missing. A worker that registers is appended unless it is registered already, and the
  round closes when \<open>max_nodes\<close> is reached. When a second passes, a round with at least
  \<open>min_nodes\<close> workers is in its last-call window and closes once \<open>last_call_timeout\<close>
  seconds of it have elapsed; a round below \<open>min_nodes\<close> fails with \<open>RendezvousTimeout\<close>
  once the setup timeout has elapsed.
\<close>

fun step :: "rdzv_config \<Rightarrow> 'w rdzv_round \<Rightarrow> 'w event \<Rightarrow> 'w status" where
  "step cfg r (Register w) =
     (if w \<in> set (registered r) then Open r
      else if max_nodes cfg \<le> length (registered r) + 1 then Closed (registered r @ [w])
      else Open (r\<lparr>registered := registered r @ [w]\<rparr>))"
| "step cfg r Tick =
     (if min_nodes cfg \<le> length (registered r) then
        (if last_call_timeout cfg \<le> last_call_elapsed r + 1 then Closed (registered r)
         else Open (r\<lparr>last_call_elapsed := last_call_elapsed r + 1\<rparr>))
      else
        (if setup_timeout cfg \<le> elapsed r + 1 then Failed RendezvousTimeout
         else Open (r\<lparr>elapsed := elapsed r + 1\<rparr>)))"

text \<open>
  Modelled from the spec: a history applied to a round; the handler's code is missing. A
  closed or failed round is immutable.
\<close>

fun run :: "rdzv_config \<Rightarrow> 'w status \<Rightarrow> 'w event list \<Rightarrow> 'w status" where
  "run cfg (Open r) (e # es) = run cfg (step cfg r e) es"
| "run cfg s es = s"

text \<open>
  Modelled from the spec: the outcome of \<open>join\<close> for the workers of a round that starts
  empty; the handler's code is missing.
\<close>

definition join :: "rdzv_config \<Rightarrow> 'w event list \<Rightarrow> 'w status" where
  "join cfg events = run cfg (Open \<lparr>registered = [], elapsed = 0, last_call_elapsed = 0\<rparr>) events"

text \<open>
  Modelled from the spec: the workers that register in a history; the store's record of a
  round is missing.
\<close>

fun registrants :: "'w event list \<Rightarrow> 'w list" where
  "registrants [] = []"
| "registrants (Register w # es) = w # registrants es"
| "registrants (Tick # es) = registrants es"

text \<open>
  Modelled from the spec: the seconds that pass in a history; the store's record of a
  round is missing.
\<close>

fun seconds :: "'w event list \<Rightarrow> nat" where
  "seconds [] = 0"
| "seconds (Register w # es) = seconds es"
| "seconds (Tick # es) = Suc (seconds es)"

section \<open>Properties of the custom partition\<close>

lemma length_boundaries: "length (boundaries parts) = Suc (length parts)"
  by (simp add: boundaries_def)

lemma boundaries_nth:
  assumes "j \<le> length parts"
  shows "boundaries parts ! j = sum_list (take j parts)"
proof (cases j)
  case 0
  then show ?thesis by (simp add: boundaries_def)
next
  case (Suc k)
  with assms have k: "k < length parts" by simp
  then have "boundaries parts ! j = sum_list (take k parts) + parts ! k"
    by (simp add: boundaries_def Suc nth_enumerate_eq)
  also have "\<dots> = sum_list (take (Suc k) parts)"
    using k by (simp add: take_Suc_conv_app_nth)
  finally show ?thesis by (simp add: Suc)
qed

lemma widen_last_Inr:
  "sizes \<noteq> [] \<Longrightarrow> widen_last sizes = Inr (sizes[length sizes - 1 := last sizes + 2])"
  by (simp add: widen_last_def last_conv_nth)

lemma custom_partitions_Inr:
  "sizes \<noteq> [] \<Longrightarrow> sum_list sizes = N \<Longrightarrow>
   custom_partitions sizes N = Inr (boundaries (sizes[length sizes - 1 := last sizes + 2]))"
  by (simp add: custom_partitions_def widen_last_Inr)

lemma custom_partitions_InrD:
  assumes "custom_partitions sizes N = Inr bs"
  shows "sizes \<noteq> []" and "sum_list sizes = N"
    and "bs = boundaries (sizes[length sizes - 1 := last sizes + 2])"
  using assms
  by (auto simp: custom_partitions_def widen_last_def last_conv_nth split: if_splits)

lemma sum_list_widened:
  fixes sizes :: "int list"
  assumes "sizes \<noteq> []"
  shows "sum_list (sizes[length sizes - 1 := last sizes + 2]) = sum_list sizes + 2"
proof -
  from assms obtain ys y where "sizes = ys @ [y]"
    by (cases sizes rule: rev_cases) auto
  then show ?thesis by simp
qed

lemma take_widened:
  "j < length sizes \<Longrightarrow> take j (sizes[length sizes - 1 := v]) = take j sizes"
  by simp

lemma widened_nonneg:
  assumes "\<forall>s\<in>set sizes. (0::int) \<le> s" and "sizes \<noteq> []"
  shows "\<forall>s\<in>set (sizes[length sizes - 1 := last sizes + 2]). 0 \<le> s"
proof
  fix s assume "s \<in> set (sizes[length sizes - 1 := last sizes + 2])"
  then have "s \<in> insert (last sizes + 2) (set sizes)"
    using set_update_subset_insert by fastforce
  moreover have "0 \<le> last sizes" using assms by simp
  ultimately show "0 \<le> s" using assms(1) by auto
qed

lemma sorted_boundaries:
  assumes "\<forall>s\<in>set parts. (0::int) \<le> s"
  shows "sorted (boundaries parts)"
proof -
  have "boundaries parts ! i \<le> boundaries parts ! Suc i" if "Suc i < length (boundaries parts)" for i
  proof -
    from that have i: "i < length parts" by (simp add: length_boundaries)
    then have "boundaries parts ! Suc i = boundaries parts ! i + parts ! i"
      by (simp add: boundaries_nth take_Suc_conv_app_nth)
    moreover have "0 \<le> parts ! i" using assms i by simp
    ultimately show ?thesis by simp
  qed
  then show ?thesis by (simp add: sorted_iff_nth_Suc)
qed

lemma last_boundaries: "last (boundaries parts) = boundaries parts ! length parts"
proof -
  have "boundaries parts \<noteq> []" by (simp add: boundaries_def)
  then show ?thesis by (simp add: last_conv_nth length_boundaries)
qed

lemma boundaries_cover:
  assumes "sorted (boundaries parts)" and "0 \<le> i" and "i < last (boundaries parts)"
  shows "\<exists>j<length parts. boundaries parts ! j \<le> i \<and> i < boundaries parts ! Suc j"
proof (rule ccontr)
  assume no: "\<not> ?thesis"
  have "boundaries parts ! j \<le> i" if "j \<le> length parts" for j
    using that
  proof (induction j)
    case 0
    then show ?case using assms(2) by (simp add: boundaries_def)
  next
    case (Suc j)
    then have "boundaries parts ! j \<le> i" and "j < length parts" by simp_all
    with no show ?case by force
  qed
  then have "boundaries parts ! length parts \<le> i" by simp
  moreover have "last (boundaries parts) = boundaries parts ! length parts"
    by (simp add: last_boundaries)
  ultimately show False using assms(3) by simp
qed

subsection \<open>Boundaries and prefix sums\<close>

text \<open>
  Claim C2, as amended. For a list of \<open>P \<ge> 1\<close> sizes that sum to \<open>N\<close>, lines 260-262
  return \<open>P + 1\<close> boundaries; boundary \<open>j\<close> is the sum of the first \<open>j\<close> sizes for every
  \<open>j < P\<close>, and the last boundary is the sum of all sizes plus two, because line 261 has
  widened the last size before the prefix sums are taken.
\<close>

theorem custom_boundaries_prefix_sums:
  assumes "length sizes = P" and "0 < P" and "sum_list sizes = N"
  shows "\<exists>bs. custom_partitions sizes N = Inr bs \<and> length bs = P + 1 \<and>
           (\<forall>j<P. bs ! j = sum_list (take j sizes)) \<and> bs ! P = sum_list sizes + 2"
proof -
  let ?w = "sizes[length sizes - 1 := last sizes + 2]"
  let ?bs = "boundaries ?w"
  from assms have ne: "sizes \<noteq> []" by auto
  have run: "custom_partitions sizes N = Inr ?bs"
    using ne assms(3) by (rule custom_partitions_Inr)
  have len: "length ?bs = P + 1"
    using assms(1) by (simp add: length_boundaries)
  have pre: "?bs ! j = sum_list (take j sizes)" if "j < P" for j
    using that assms(1) by (simp add: boundaries_nth)
  have lst: "?bs ! P = sum_list sizes + 2"
    using sum_list_widened [OF ne] assms(1) by (simp add: boundaries_nth)
  show ?thesis
    using run len pre lst by simp
qed

text \<open>The sizes \<open>1,2,2,3\<close> of the \<open>--parts\<close> help text, with \<open>N = 8\<close>.\<close>

theorem custom_boundaries_prefix_sums_witness:
  "length [1, 2, 2, 3::int] = 4 \<and> (0::nat) < 4 \<and> sum_list [1, 2, 2, 3] = (8::int) \<and>
   (\<exists>bs. custom_partitions [1, 2, 2, 3] 8 = Inr bs \<and> length bs = 4 + 1 \<and>
      (\<forall>j<4. bs ! j = sum_list (take j [1, 2, 2, 3])) \<and> bs ! 4 = sum_list [1, 2, 2, 3] + 2)"
  using custom_boundaries_prefix_sums [of "[1, 2, 2, 3]" 4 8] by simp

text \<open>
  Claim C2 as stated fails at \<open>j = P\<close>: for the four positive sizes \<open>1,2,2,3\<close> and
  \<open>N = 8\<close> the boundaries are \<open>0,1,3,5,10\<close>, and boundary 4 is 10 while the four sizes sum
  to 8.
\<close>

theorem custom_last_boundary_counterexample:
  "custom_partitions [1, 2, 2, 3] 8 = Inr [0, 1, 3, 5, 10] \<and> sum_list [1, 2, 2, 3] = (8::int)
   \<and> [0, 1, 3, 5, 10] ! 4 \<noteq> sum_list (take 4 [1, 2, 2, 3::int])"
  by (simp add: custom_partitions_def widen_last_def boundaries_def)

subsection \<open>The widened final stage\<close>

text \<open>
  Claim C3, as amended. In custom mode with a layer count \<open>N \<ge> 0\<close> and a last size that
  is not negative, the final stage, from boundary \<open>P - 1\<close> to boundary \<open>P\<close>, is two wider
  than the size the caller gave for it. The layer list holds the final normalization at
  index \<open>N\<close> and the reduction at index \<open>N + 1\<close>, after the \<open>N\<close> encoder layers that \<open>N\<close>
  counts; both indices lie in the final stage, which ends where the layer list ends.
\<close>

theorem final_stage_widened:
  assumes "custom_partitions sizes N = Inr bs" and "0 \<le> N" and "0 \<le> last sizes"
  shows "bs ! length sizes - bs ! (length sizes - 1) = last sizes + 2
         \<and> bs ! (length sizes - 1) \<le> N \<and> N + 1 < bs ! length sizes
         \<and> layers N ! nat N = Norm \<and> layers N ! nat (N + 1) = SumReduce
         \<and> bs ! length sizes = int (length (layers N))"
proof -
  let ?n = "length sizes"
  let ?w = "sizes[?n - 1 := last sizes + 2]"
  from custom_partitions_InrD [OF assms(1)]
  have ne: "sizes \<noteq> []" and sum: "sum_list sizes = N" and bs: "bs = boundaries ?w"
    by simp_all
  from ne obtain ys y where sz: "sizes = ys @ [y]"
    by (cases sizes rule: rev_cases) auto
  have hi: "bs ! ?n = N + 2"
    using sum_list_widened [OF ne] sum by (simp add: bs boundaries_nth)
  have lo: "bs ! (?n - 1) = N - last sizes"
    using sum by (simp add: bs boundaries_nth sz)
  have lay: "layers N ! nat N = Norm \<and> layers N ! nat (N + 1) = SumReduce
             \<and> int (length (layers N)) = N + 2"
    using assms(2) by (simp add: layers_def clones_def nth_append nat_add_distrib)
  show ?thesis
    using hi lo lay assms(3) by simp
qed

theorem final_stage_widened_witness:
  "custom_partitions [1, 2, 2, 3] 8 = Inr [0, 1, 3, 5, 10] \<and> (0::int) \<le> 8
   \<and> (0::int) \<le> last [1, 2, 2, 3]
   \<and> [0, 1, 3, 5, 10::int] ! 4 - [0, 1, 3, 5, 10] ! 3 = 3 + 2
   \<and> layers 8 ! 8 = Norm \<and> layers 8 ! 9 = SumReduce \<and> length (layers 8) = 10"
proof -
  have run: "custom_partitions [1, 2, 2, 3] 8 = Inr [0, 1, 3, 5, 10]"
    by (simp add: custom_partitions_def widen_last_def boundaries_def)
  from final_stage_widened [OF run] show ?thesis
    using run by simp
qed

text \<open>
  Claim C3 as stated fails when the last size is negative: \<open>--parts 9,-1\<close> with \<open>N = 8\<close>
  passes the assertion of line 260 and gives the boundaries \<open>0,9,10\<close>. The final stage
  starts at index 9, so the final normalization at index 8 falls into the stage before
  it.
\<close>

theorem final_stage_negative_size_counterexample:
  "custom_partitions [9, - 1] 8 = Inr [0, 9, 10] \<and> layers 8 ! 8 = Norm
   \<and> \<not> [0, 9, 10::int] ! 1 \<le> 8"
  by (simp add: custom_partitions_def widen_last_def boundaries_def layers_def clones_def
      nth_append)

subsection \<open>A size list that does not sum to the layer count\<close>

text \<open>
  Claim C4. When \<open>--parts\<close> is given and its sizes do not sum to \<open>N\<close>, the assertion of
  line 260 fails (the failure the specification calls \<open>PartitionSizeMismatch\<close>): no
  boundaries are returned, \<open>PipelineModule\<close> is not constructed, and the training that
  follows, whatever it is, is not entered.
\<close>

theorem size_mismatch_fails_fast:
  assumes "args_parts \<noteq> []"
    and "parse_parts py_int (split_comma args_parts) = Inr sizes"
    and "sum_list sizes \<noteq> N"
  shows "custom_partitions sizes N = Inl AssertionError
         \<and> make_model py_int args_parts N pipe_parallel_size = Inl AssertionError
         \<and> run_training py_int args_parts N pipe_parallel_size train = Inl AssertionError"
  using assms by (simp add: custom_partitions_def make_model_def run_training_def)

text \<open>\<open>--parts 3,4\<close> with \<open>N = 8\<close> and two stages.\<close>

theorem size_mismatch_fails_fast_witness:
  "parse_parts (\<lambda>s. if s = ''3'' then Some 3 else if s = ''4'' then Some 4 else None)
     (split_comma ''3,4'') = Inr [3, 4]
   \<and> sum_list [3, 4] \<noteq> (8::int)
   \<and> run_training (\<lambda>s. if s = ''3'' then Some 3 else if s = ''4'' then Some 4 else None)
       ''3,4'' 8 2 (\<lambda>m. Inr m) = Inl AssertionError"
proof -
  let ?py_int = "\<lambda>s. if s = ''3'' then Some (3::int) else if s = ''4'' then Some 4 else None"
  have parse: "parse_parts ?py_int (split_comma ''3,4'') = Inr [3, 4]"
    by simp
  have ne: "''3,4'' \<noteq> []" by simp
  have sum: "sum_list [3, 4] \<noteq> (8::int)" by simp
  from size_mismatch_fails_fast [OF ne parse sum, of 2 "\<lambda>m. Inr m"] parse sum
  show ?thesis by simp
qed

subsection \<open>The shape of the boundary list\<close>

text \<open>
  Claim C10, as amended. For a list of \<open>P \<ge> 1\<close> sizes, none negative, that sum to \<open>N\<close>,
  the boundary list has \<open>P + 1\<close> entries, starts at 0, is nondecreasing and ends at
  \<open>N + 2\<close>, the length of the layer list given to the pipeline; every index of that list
  lies in one of the \<open>P\<close> stages.
\<close>

theorem custom_boundaries_shape:
  assumes "length sizes = P" and "0 < P" and "sum_list sizes = N"
    and "\<forall>s\<in>set sizes. 0 \<le> s"
  shows "\<exists>bs. custom_partitions sizes N = Inr bs \<and> length bs = P + 1 \<and> bs ! 0 = 0 \<and>
           sorted bs \<and> last bs = N + 2 \<and> last bs = int (length (layers N)) \<and>
           (\<forall>i<length (layers N). \<exists>j<P. bs ! j \<le> int i \<and> int i < bs ! Suc j)"
proof -
  let ?w = "sizes[length sizes - 1 := last sizes + 2]"
  let ?bs = "boundaries ?w"
  from assms have ne: "sizes \<noteq> []" by auto
  have run: "custom_partitions sizes N = Inr ?bs"
    using ne assms(3) by (rule custom_partitions_Inr)
  have len: "length ?bs = P + 1"
    using assms(1) by (simp add: length_boundaries)
  have first: "?bs ! 0 = 0" by (simp add: boundaries_nth)
  have srt: "sorted ?bs"
    using widened_nonneg [OF assms(4) ne] by (rule sorted_boundaries)
  have lst: "last ?bs = N + 2"
    using sum_list_widened [OF ne] assms(3) by (simp add: last_boundaries boundaries_nth)
  have "0 \<le> N" using assms(3,4) by (auto intro: sum_list_nonneg)
  then have lay: "int (length (layers N)) = N + 2"
    by (simp add: layers_def clones_def)
  have cov: "\<exists>j<P. ?bs ! j \<le> int i \<and> int i < ?bs ! Suc j" if "i < length (layers N)" for i
  proof -
    from that lay lst have "int i < last ?bs" by simp
    with srt have "\<exists>j<length ?w. ?bs ! j \<le> int i \<and> int i < ?bs ! Suc j"
      by (intro boundaries_cover) simp_all
    then show ?thesis using assms(1) by simp
  qed
  show ?thesis
    using run len first srt lst lay cov by simp
qed

theorem custom_boundaries_shape_witness:
  "length [1, 2, 2, 3::int] = 4 \<and> (0::nat) < 4 \<and> sum_list [1, 2, 2, 3] = (8::int) \<and>
   (\<exists>bs. custom_partitions [1, 2, 2, 3] 8 = Inr bs \<and> length bs = 4 + 1 \<and> bs ! 0 = 0 \<and>
      sorted bs \<and> last bs = 8 + 2 \<and> last bs = int (length (layers 8)) \<and>
      (\<forall>i<length (layers 8). \<exists>j<4. bs ! j \<le> int i \<and> int i < bs ! Suc j))"
  using custom_boundaries_shape [of "[1, 2, 2, 3]" 4 8] by simp

text \<open>
  Claim C10 as stated fails when a size is negative: \<open>--parts 5,-1,4\<close> with \<open>N = 8\<close>
  passes the assertion of line 260 and gives the boundaries \<open>0,5,4,10\<close>, which are not
  nondecreasing.
\<close>

theorem custom_boundaries_not_sorted_counterexample:
  "custom_partitions [5, - 1, 4] 8 = Inr [0, 5, 4, 10] \<and> sum_list [5, - 1, 4] = (8::int)
   \<and> \<not> sorted [0, 5, 4, 10::int]"
  by (simp add: custom_partitions_def widen_last_def boundaries_def)

subsection \<open>The last-call timeout\<close>

lemma setitem_Inr:
  "setitem j k v = Inr items' \<Longrightarrow> \<exists>items. j = JDict items \<and> items' = AList.update k v items"
  by (cases j) auto

lemma environ_get_Inr: "environ_get environ k = Inr v \<Longrightarrow> environ k = Some v"
  by (simp add: environ_get_def split: option.splits)

text \<open>
  Claim C9. Whenever the driver gets as far as constructing the rendezvous parameters, the
  configuration it passes holds \<open>last_call_timeout = 1\<close>: the blob of
  \<open>PROJECT_PACTUM_RDZV_CONFIGS\<close> was a JSON object, and what is passed is that object with
  the key \<open>last_call_timeout\<close> set to 1, whatever value the blob gave it.
\<close>

theorem last_call_timeout_overwritten:
  assumes "rdzv_parameters py_int json_loads environ = Inr p"
  shows "map_of (rp_config p) ''last_call_timeout'' = Some (JInt 1)
         \<and> (\<exists>blob items. environ ''PROJECT_PACTUM_RDZV_CONFIGS'' = Some blob
               \<and> json_loads blob = Some (JDict items)
               \<and> rp_config p = AList.update ''last_call_timeout'' (JInt 1) items)"
proof -
  from assms obtain blob loaded rdzv_configs where
    blob: "environ_get environ ''PROJECT_PACTUM_RDZV_CONFIGS'' = Inr blob" and
    loaded: "json_loads blob = Some loaded" and
    set: "setitem loaded ''last_call_timeout'' (JInt 1) = Inr rdzv_configs" and
    cfg: "rp_config p = rdzv_configs"
    unfolding rdzv_parameters_def
    by (auto split: sum.splits option.splits if_splits)
  from setitem_Inr [OF set] obtain items where
    items: "loaded = JDict items" "rdzv_configs = AList.update ''last_call_timeout'' (JInt 1) items"
    by blast
  have "map_of (rp_config p) ''last_call_timeout'' = Some (JInt 1)"
    unfolding cfg items(2) by (simp add: update_conv')
  moreover have "environ ''PROJECT_PACTUM_RDZV_CONFIGS'' = Some blob"
    using blob by (rule environ_get_Inr)
  ultimately show ?thesis
    using loaded items cfg by auto
qed

text \<open>
  The parameters are constructed whenever the five variables are set, the two node counts
  parse, and the blob is a JSON object that repeats none of the keywords of the call.
\<close>

lemma rdzv_parameters_returns:
  assumes "environ ''PROJECT_PACTUM_ENDPOINT'' = Some ep"
    and "environ ''PROJECT_PACTUM_RUN_ID'' = Some rid"
    and "environ ''PROJECT_PACTUM_MIN_NODES'' = Some mn" and "py_int mn = Some lo"
    and "environ ''PROJECT_PACTUM_MAX_NODES'' = Some mx" and "py_int mx = Some hi"
    and "environ ''PROJECT_PACTUM_RDZV_CONFIGS'' = Some blob"
    and "json_loads blob = Some (JDict items)"
    and "set (map fst items) \<inter> set call_keywords = {}"
  shows "rdzv_parameters py_int json_loads environ =
           Inr \<lparr> rp_backend = ''etcd-v2'', rp_endpoint = ep, rp_run_id = rid,
                 rp_min_nodes = lo, rp_max_nodes = hi,
                 rp_config = AList.update ''last_call_timeout'' (JInt 1) items \<rparr>"
proof -
  have "''last_call_timeout'' \<notin> set call_keywords"
    by (simp add: call_keywords_def)
  with assms(9) have "\<not> list_ex (\<lambda>k. k \<in> set call_keywords)
      (map fst (AList.update ''last_call_timeout'' (JInt 1) items))"
    by (auto simp: list_ex_iff update_keys)
  then show ?thesis
    using assms(1-8)
    by (simp add: rdzv_parameters_def environ_get_def environ_int_def)
qed

text \<open>A caller who configured a last-call timeout of 30 seconds gets 1.\<close>

theorem last_call_timeout_overwritten_witness:
  "rdzv_parameters
     (\<lambda>s. if s = ''2'' then Some 2 else if s = ''4'' then Some 4 else None)
     (\<lambda>s. if s = ''configs'' then Some (JDict [(''last_call_timeout'', JInt 30), (''timeout'', JInt 900)]) else None)
     (map_of [(''PROJECT_PACTUM_ENDPOINT'', ''10.0.0.1:2379''),
              (''PROJECT_PACTUM_RUN_ID'', ''run''),
              (''PROJECT_PACTUM_MIN_NODES'', ''2''),
              (''PROJECT_PACTUM_MAX_NODES'', ''4''),
              (''PROJECT_PACTUM_RDZV_CONFIGS'', ''configs'')])
   = Inr \<lparr> rp_backend = ''etcd-v2'', rp_endpoint = ''10.0.0.1:2379'', rp_run_id = ''run'',
           rp_min_nodes = 2, rp_max_nodes = 4,
           rp_config = [(''last_call_timeout'', JInt 1), (''timeout'', JInt 900)] \<rparr>
   \<and> map_of [(''last_call_timeout'', JInt 1), (''timeout'', JInt 900)] ''last_call_timeout''
       = Some (JInt 1)"
proof -
  let ?py_int = "\<lambda>s. if s = ''2'' then Some (2::int) else if s = ''4'' then Some 4 else None"
  let ?loads = "\<lambda>s. if s = ''configs''
      then Some (JDict [(''last_call_timeout'', JInt 30), (''timeout'', JInt 900)]) else None"
  let ?env = "map_of [(''PROJECT_PACTUM_ENDPOINT'', ''10.0.0.1:2379''),
              (''PROJECT_PACTUM_RUN_ID'', ''run''),
              (''PROJECT_PACTUM_MIN_NODES'', ''2''),
              (''PROJECT_PACTUM_MAX_NODES'', ''4''),
              (''PROJECT_PACTUM_RDZV_CONFIGS'', ''configs'')]"
  let ?p = "\<lparr> rp_backend = ''etcd-v2'', rp_endpoint = ''10.0.0.1:2379'', rp_run_id = ''run'',
           rp_min_nodes = 2, rp_max_nodes = 4,
           rp_config = [(''last_call_timeout'', JInt 1), (''timeout'', JInt 900)] \<rparr>"
  have run: "rdzv_parameters ?py_int ?loads ?env = Inr ?p"
    by (simp add: rdzv_parameters_def environ_get_def environ_int_def call_keywords_def)
  from last_call_timeout_overwritten [OF run] run show ?thesis
    by simp
qed

section \<open>Properties of the coordinator components\<close>

subsection \<open>Topology Builder\<close>

lemma build_zip:
  "map (\<lambda>(i, w). (w, (i div D, i mod D))) (enumerate 0 decision)
   = zip decision (map (\<lambda>i. (i div D, i mod D)) [0..<length decision])"
  by (rule nth_equalityI) (simp_all add: nth_enumerate_eq)

lemma build_lookup:
  assumes "distinct decision" and "i < length decision"
  shows "map_of (map (\<lambda>(i, w). (w, (i div D, i mod D))) (enumerate 0 decision)) (decision ! i)
         = Some (i div D, i mod D)"
  using assms by (simp add: build_zip map_of_zip_nth)

lemma grid_bij:
  fixes P D :: nat
  shows "bij_betw (\<lambda>i. (i div D, i mod D)) {..<P * D} ({..<P} \<times> {..<D})"
proof (rule bij_betwI')
  fix i j assume "i \<in> {..<P * D}" "j \<in> {..<P * D}"
  show "((i div D, i mod D) = (j div D, j mod D)) = (i = j)"
  proof
    assume "(i div D, i mod D) = (j div D, j mod D)"
    then have "i div D * D + i mod D = j div D * D + j mod D" by simp
    then show "i = j" by (simp only: div_mult_mod_eq)
  qed simp
next
  fix i assume i: "i \<in> {..<P * D}"
  then have "0 < D" by (cases D) auto
  moreover from i have "i div D < P"
    by (simp add: less_mult_imp_div_less)
  ultimately show "(i div D, i mod D) \<in> {..<P} \<times> {..<D}" by simp
next
  fix c assume "c \<in> {..<P} \<times> {..<D}"
  then obtain p d where c: "c = (p, d)" "p < P" "d < D" by auto
  have "p * D + d < Suc p * D" using c by simp
  also have "\<dots> \<le> P * D" using c by (intro mult_le_mono1) simp
  finally have "p * D + d < P * D" .
  moreover have "(p * D + d) div D = p" "(p * D + d) mod D = d"
    using c by simp_all
  ultimately show "\<exists>i\<in>{..<P * D}. c = (i div D, i mod D)"
    using c by (intro bexI [of _ "p * D + d"]) simp_all
qed

text \<open>
  Claim C1. For a decision of \<open>W\<close> different workers and \<open>P * D = W\<close>, the Topology Builder
  returns a mapping that gives the \<open>i\<close>-th worker the coordinate \<open>(i div D, i mod D)\<close>, and
  the mapping is a bijection from the workers onto \<open>[0,P) \<times> [0,D)\<close>.
\<close>

theorem build_row_major_bijection:
  assumes "distinct decision" and "P * D = length decision"
  shows "\<exists>m. build decision P D = Inr m
           \<and> (\<forall>i<length decision. map_of m (decision ! i) = Some (i div D, i mod D))
           \<and> bij_betw (\<lambda>w. the (map_of m w)) (set decision) ({..<P} \<times> {..<D})"
proof -
  let ?m = "map (\<lambda>(i, w). (w, (i div D, i mod D))) (enumerate 0 decision)"
  have run: "build decision P D = Inr ?m"
    using assms(2) by (simp add: build_def)
  have look: "map_of ?m (decision ! i) = Some (i div D, i mod D)" if "i < length decision" for i
    using assms(1) that by (rule build_lookup)
  have nth: "bij_betw ((!) decision) {..<P * D} (set decision)"
    using assms by (intro bij_betw_nth) simp_all
  have "bij_betw (\<lambda>i. the (map_of ?m (decision ! i))) {..<P * D} ({..<P} \<times> {..<D})
        = bij_betw (\<lambda>i. (i div D, i mod D)) {..<P * D} ({..<P} \<times> {..<D})"
    by (rule bij_betw_cong) (simp add: look assms(2))
  then have "bij_betw (\<lambda>i. the (map_of ?m (decision ! i))) {..<P * D} ({..<P} \<times> {..<D})"
    using grid_bij [of D P] by simp
  then have "bij_betw ((\<lambda>w. the (map_of ?m w)) \<circ> (!) decision) {..<P * D} ({..<P} \<times> {..<D})"
    by (simp add: comp_def)
  with nth have "bij_betw (\<lambda>w. the (map_of ?m w)) (set decision) ({..<P} \<times> {..<D})"
    by (rule bij_betw_comp_iff [THEN iffD2])
  with run look show ?thesis by blast
qed

theorem build_row_major_bijection_witness:
  "distinct [10, 11, 12, 13, 14, 15::nat] \<and> 3 * 2 = length [10, 11, 12, 13, 14, 15::nat] \<and>
   (\<exists>m. build [10, 11, 12, 13, 14, 15::nat] 3 2 = Inr m
      \<and> (\<forall>i<length [10, 11, 12, 13, 14, 15::nat].
            map_of m ([10, 11, 12, 13, 14, 15] ! i) = Some (i div 2, i mod 2))
      \<and> bij_betw (\<lambda>w. the (map_of m w)) (set [10, 11, 12, 13, 14, 15]) ({..<3} \<times> {..<2}))"
proof -
  have d: "distinct [10, 11, 12, 13, 14, 15::nat]" by simp
  have l: "3 * 2 = length [10, 11, 12, 13, 14, 15::nat]" by simp
  show ?thesis
    by (rule conjI [OF d conjI [OF l build_row_major_bijection [OF d l]]])
qed

text \<open>Six workers on a grid of three stages and two replicas.\<close>

lemma build_six_workers:
  "build [w0, w1, w2, w3, w4, w5] 3 2 =
     Inr [(w0, (0, 0)), (w1, (0, 1)), (w2, (1, 0)), (w3, (1, 1)), (w4, (2, 0)), (w5, (2, 1))]"
  by (simp add: build_def)

text \<open>
  Claim C6. When \<open>P * D\<close> differs from the length of the decision, the Topology Builder
  fails with \<open>TopologyMismatch\<close> and returns no assignment.
\<close>

theorem build_mismatch:
  "P * D \<noteq> length decision \<Longrightarrow> build decision P D = Inl TopologyMismatch"
  by (simp add: build_def)

theorem build_mismatch_witness:
  "3 * 2 \<noteq> length [10, 11, 12, 13, 14::nat] \<and> build [10, 11, 12, 13, 14::nat] 3 2 = Inl TopologyMismatch"
  using build_mismatch [of 3 2 "[10, 11, 12, 13, 14::nat]"] by simp

subsection \<open>Uniform partition\<close>

lemma length_ranges_from: "length (ranges_from start ns) = length ns"
  by (induction ns arbitrary: start) simp_all

lemma nth_ranges_from:
  "j < length ns \<Longrightarrow>
   ranges_from start ns ! j = (start + sum_list (take j ns), start + sum_list (take (Suc j) ns))"
proof (induction ns arbitrary: start j)
  case Nil
  then show ?case by simp
next
  case (Cons n ns)
  then show ?case by (cases j) simp_all
qed

lemma sum_list_take_mono:
  fixes ns :: "nat list"
  assumes "a \<le> b"
  shows "sum_list (take a ns) \<le> sum_list (take b ns)"
proof -
  from assms obtain c where "b = a + c" by (auto simp: le_iff_add)
  then show ?thesis by (simp add: take_add)
qed

lemma prefix_cover:
  fixes ns :: "nat list"
  assumes "i < sum_list ns"
  shows "\<exists>j<length ns. sum_list (take j ns) \<le> i \<and> i < sum_list (take (Suc j) ns)"
  using assms
proof (induction ns rule: rev_induct)
  case Nil
  then show ?case by simp
next
  case (snoc x xs)
  show ?case
  proof (cases "i < sum_list xs")
    case True
    with snoc.IH obtain j where "j < length xs" "sum_list (take j xs) \<le> i"
      "i < sum_list (take (Suc j) xs)" by blast
    then show ?thesis by (intro exI [of _ j]) simp
  next
    case False
    with snoc.prems show ?thesis by (intro exI [of _ "length xs"]) simp
  qed
qed

lemma length_uniform_sizes: "0 < P \<Longrightarrow> length (uniform_sizes N P) = P"
  by (simp add: uniform_sizes_def less_imp_le)

lemma sum_list_uniform_sizes:
  assumes "0 < P"
  shows "sum_list (uniform_sizes N P) = N"
proof -
  have r: "N mod P \<le> P" using assms by (simp add: less_imp_le)
  have "sum_list (uniform_sizes N P) = N mod P * (N div P + 1) + (P - N mod P) * (N div P)"
    by (simp add: uniform_sizes_def sum_list_replicate)
  also have "\<dots> = N mod P + (N mod P + (P - N mod P)) * (N div P)"
    by (simp add: algebra_simps)
  also have "\<dots> = N mod P + P * (N div P)"
    using r by simp
  finally show ?thesis by simp
qed

lemma uniform_sizes_values:
  assumes "s \<in> set (uniform_sizes N P)"
  shows "s = N div P \<or> s = N div P + 1"
  using assms by (auto simp: uniform_sizes_def)

text \<open>
  Claim C5. For \<open>1 \<le> P \<le> N\<close> the uniform partition has \<open>P\<close> ranges; the first starts at 0,
  each ends where the next starts, the last ends at \<open>N\<close>, none is empty, every index below
  \<open>N\<close> lies in exactly one of them, and two ranges differ in size by at most one.
\<close>

theorem uniform_partition_even:
  assumes "0 < P" and "P \<le> N"
  shows "length (uniform_partition N P) = P
         \<and> fst (uniform_partition N P ! 0) = 0
         \<and> (\<forall>j. Suc j < P \<longrightarrow>
               snd (uniform_partition N P ! j) = fst (uniform_partition N P ! Suc j))
         \<and> snd (uniform_partition N P ! (P - 1)) = N
         \<and> (\<forall>j<P. fst (uniform_partition N P ! j) < snd (uniform_partition N P ! j))
         \<and> (\<forall>i<N. \<exists>!j. j < P \<and> fst (uniform_partition N P ! j) \<le> i
                         \<and> i < snd (uniform_partition N P ! j))
         \<and> (\<forall>j<P. \<forall>k<P. range_size (uniform_partition N P ! j)
                             \<le> range_size (uniform_partition N P ! k) + 1)"
proof -
  let ?ns = "uniform_sizes N P"
  let ?rs = "uniform_partition N P"
  have rs: "?rs = ranges_from 0 ?ns" using assms(1) by (simp add: uniform_partition_def)
  have len: "length ?ns = P" using assms(1) by (rule length_uniform_sizes)
  have sum: "sum_list ?ns = N" using assms(1) by (rule sum_list_uniform_sizes)
  have nth: "?rs ! j = (sum_list (take j ?ns), sum_list (take (Suc j) ?ns))" if "j < P" for j
    using that len by (simp add: rs nth_ranges_from)
  have size: "range_size (?rs ! j) = ?ns ! j" if "j < P" for j
    using that len by (simp add: nth range_size_def take_Suc_conv_app_nth)
  have val: "?ns ! j = N div P \<or> ?ns ! j = N div P + 1" if "j < P" for j
    using that len by (intro uniform_sizes_values) simp
  have q: "0 < N div P" using assms by (simp add: div_greater_zero_iff)
  have c1: "length ?rs = P" by (simp add: rs length_ranges_from len)
  have c2: "fst (?rs ! 0) = 0" using assms(1) by (simp add: nth)
  have c3: "snd (?rs ! j) = fst (?rs ! Suc j)" if "Suc j < P" for j
    using that by (simp add: nth)
  have c4: "snd (?rs ! (P - 1)) = N"
    using assms(1) len sum by (simp add: nth)
  have c5: "fst (?rs ! j) < snd (?rs ! j)" if "j < P" for j
  proof -
    have "0 < ?ns ! j" using val [OF that] q by auto
    then show ?thesis using that len by (simp add: nth take_Suc_conv_app_nth)
  qed
  have c6: "\<exists>!j. j < P \<and> fst (?rs ! j) \<le> i \<and> i < snd (?rs ! j)" if "i < N" for i
  proof -
    from that sum have "i < sum_list ?ns" by simp
    from prefix_cover [OF this] len obtain j where
      j: "j < P" "sum_list (take j ?ns) \<le> i" "i < sum_list (take (Suc j) ?ns)" by auto
    show ?thesis
    proof (rule ex1I [of _ j])
      show "j < P \<and> fst (?rs ! j) \<le> i \<and> i < snd (?rs ! j)"
        using j by (simp add: nth)
    next
      fix k assume "k < P \<and> fst (?rs ! k) \<le> i \<and> i < snd (?rs ! k)"
      then have "k < P" and "fst (?rs ! k) \<le> i" and "i < snd (?rs ! k)"
        by simp_all
      then have k: "k < P" "sum_list (take k ?ns) \<le> i" "i < sum_list (take (Suc k) ?ns)"
        by (simp_all add: nth)
      show "k = j"
      proof (rule ccontr)
        assume "k \<noteq> j"
        then consider "Suc k \<le> j" | "Suc j \<le> k" by linarith
        then show False
        proof cases
          case 1
          from sum_list_take_mono [OF this, of ?ns] k(3) j(2) show False by simp
        next
          case 2
          from sum_list_take_mono [OF this, of ?ns] j(3) k(2) show False by simp
        qed
      qed
    qed
  qed
  have c7: "range_size (?rs ! j) \<le> range_size (?rs ! k) + 1" if "j < P" "k < P" for j k
    using val [OF that(1)] val [OF that(2)] by (auto simp: size that)
  have c3': "\<forall>j. Suc j < P \<longrightarrow> snd (?rs ! j) = fst (?rs ! Suc j)"
    by (intro allI impI) (rule c3)
  have c5': "\<forall>j<P. fst (?rs ! j) < snd (?rs ! j)"
    by (intro allI impI) (rule c5)
  have c6': "\<forall>i<N. \<exists>!j. j < P \<and> fst (?rs ! j) \<le> i \<and> i < snd (?rs ! j)"
    by (intro allI impI) (rule c6)
  have c7': "\<forall>j<P. \<forall>k<P. range_size (?rs ! j) \<le> range_size (?rs ! k) + 1"
    by (intro allI impI) (rule c7)
  show ?thesis
    by (rule conjI [OF c1 conjI [OF c2 conjI [OF c3' conjI [OF c4 conjI [OF c5'
          conjI [OF c6' c7']]]]]])
qed

text \<open>Eight layers on four stages.\<close>

lemma uniform_partition_8_4: "uniform_partition 8 4 = [(0, 2), (2, 4), (4, 6), (6, 8)]"
  by code_simp

theorem uniform_partition_even_witness:
  "(0::nat) < 4 \<and> (4::nat) \<le> 8 \<and> uniform_partition 8 4 = [(0, 2), (2, 4), (4, 6), (6, 8)]
   \<and> length (uniform_partition 8 4) = 4
   \<and> snd (uniform_partition 8 4 ! (4 - 1)) = 8
   \<and> (\<exists>!j. j < 4 \<and> fst (uniform_partition 8 4 ! j) \<le> 5
                  \<and> 5 < snd (uniform_partition 8 4 ! j))"
proof -
  have a: "(0::nat) < 4" and b: "(4::nat) \<le> 8" by simp_all
  have c: "uniform_partition 8 4 = [(0, 2), (2, 4), (4, 6), (6, 8)]"
    by code_simp
  note even = uniform_partition_even [OF a b]
  have d: "length (uniform_partition 8 4) = 4"
    using even by (rule conjunct1)
  have e: "snd (uniform_partition 8 4 ! (4 - 1)) = 8"
    using even [THEN conjunct2, THEN conjunct2, THEN conjunct2, THEN conjunct1] .
  have f: "\<exists>!j. j < 4 \<and> fst (uniform_partition 8 4 ! j) \<le> 5
                  \<and> 5 < snd (uniform_partition 8 4 ! j)"
    by (rule even [THEN conjunct2, THEN conjunct2, THEN conjunct2, THEN conjunct2,
      THEN conjunct2, THEN conjunct1, THEN spec, THEN mp]) simp
  show ?thesis
    by (rule conjI [OF a conjI [OF b conjI [OF c conjI [OF d conjI [OF e f]]]]])
qed

subsection \<open>Redundancy and Recovery Manager\<close>






lemma nth_redundancy_groups:
  "p < P \<Longrightarrow>
   redundancy_groups P D R decision ! p = take (R + 1) (take D (drop (p * D) decision))"
  by (simp add: redundancy_groups_def)

lemma row_fits:
  fixes P D p :: nat
  assumes "p < P"
  shows "p * D + D \<le> P * D"
proof -
  from assms have "Suc p \<le> P" by simp
  then have "Suc p * D \<le> P * D" by (rule mult_le_mono1)
  then show ?thesis by simp
qed


lemma redundancy_group_nth:
  assumes "P * D = length decision" and "p < P"
    and "w \<in> set (redundancy_groups P D R decision ! p)"
  shows "\<exists>j. j < D \<and> j \<le> R \<and> w = decision ! (p * D + j)"
proof -
  let ?row = "take D (drop (p * D) decision)"
  from row_fits [OF assms(2), of D] assms(1) have fits: "p * D + D \<le> length decision" by simp
  then have len: "length ?row = D" by simp
  from assms(2,3) have "w \<in> set (take (R + 1) ?row)" by (simp only: nth_redundancy_groups)
  then obtain j where j: "j < length (take (R + 1) ?row)" "take (R + 1) ?row ! j = w"
    by (auto simp only: in_set_conv_nth)
  from j(1) len have b: "j < D" "j \<le> R" by simp_all
  with j(2) fits have "w = decision ! (p * D + j)" by simp
  with b show ?thesis by blast
qed

text \<open>
  The groups satisfy the invariant of the data model: in the mapping of the Topology
  Builder all members of the group of rank \<open>p\<close> have pipeline rank \<open>p\<close>.
\<close>

lemma redundancy_groups_invariant:
  assumes "distinct decision" and "P * D = length decision" and "p < P"
    and "build decision P D = Inr topology"
  shows "redundancy_group R topology p (redundancy_groups P D R decision ! p)"
proof -
  let ?g = "redundancy_groups P D R decision ! p"
  have g: "?g = take (R + 1) (take D (drop (p * D) decision))"
    using assms(3) by (rule nth_redundancy_groups)
  have d: "distinct ?g" using assms(1) by (simp add: g)
  have l: "length ?g \<le> R + 1" by (simp add: g)
  have top: "topology = map (\<lambda>(i, w). (w, (i div D, i mod D))) (enumerate 0 decision)"
    using assms(2,4) by (simp add: build_def)
  have "map_option fst (map_of topology w) = Some p" if "w \<in> set ?g" for w
  proof -
    from redundancy_group_nth [OF assms(2,3) that] obtain j where
      j: "j < D" "w = decision ! (p * D + j)" by blast
    from row_fits [OF assms(3), of D] assms(2) j(1) have i: "p * D + j < length decision"
      by simp
    from build_lookup [OF assms(1) i, of D] j show ?thesis
      by (simp add: top)
  qed
  then have "list_all (\<lambda>w. map_option fst (map_of topology w) = Some p) ?g"
    by (simp add: list_all_iff)
  with d l show ?thesis by (simp add: redundancy_group_def)
qed




text \<open>
  \<open>R = 1\<close> on three stages with two slots each: the groups are the three rows. When worker
  4 of stage 2 is missing from the new decision, worker 5 is promoted; when both are
  missing, the plan is unrecoverable.
\<close>

lemma stage_group_loses_one:
  "plan 3 2 (Some [0, 1, 2, 3, 4, 5::nat]) [0, 1, 2, 3, 5] 1 eager
     = \<lparr>unrecoverable = False, promotions = [(2, 5)]\<rparr>"
  by (simp add: plan_def redundancy_groups_def assess_def survivors_def upt_rec)

lemma stage_group_loses_both:
  "plan 3 2 (Some [0, 1, 2, 3, 4, 5::nat]) [0, 1, 2, 3] 1 eager
     = \<lparr>unrecoverable = True, promotions = []\<rparr>"
  by (simp add: plan_def redundancy_groups_def assess_def survivors_def upt_rec)

lemma groups_example: "redundancy_groups 3 2 1 [0, 1, 2, 3, 4, 5::nat] = [[0, 1], [2, 3], [4, 5]]"
  by (simp add: redundancy_groups_def upt_rec)


subsection \<open>Rendezvous Engine\<close>

lemma run_Failed: "run cfg (Failed e) es = Failed e"
  by (cases es) simp_all

lemma run_times_out:
  assumes "min_nodes cfg \<le> max_nodes cfg"
    and "distinct (registered r)"
    and "card (set (registered r) \<union> set (registrants es)) < min_nodes cfg"
    and "setup_timeout cfg \<le> elapsed r + seconds es"
    and "0 < seconds es"
  shows "run cfg (Open r) (es @ post) = Failed RendezvousTimeout"
  using assms(2-5)
proof (induction es arbitrary: r)
  case Nil
  then show ?case by simp
next
  case (Cons e es)
  have fin: "finite (set (registered r) \<union> set (registrants (e # es)))" by simp
  have "card (set (registered r)) \<le> card (set (registered r) \<union> set (registrants (e # es)))"
    by (rule card_mono [OF fin]) simp
  with Cons.prems(1,2) have below: "length (registered r) < min_nodes cfg"
    by (simp add: distinct_card)
  show ?case
  proof (cases e)
    case (Register w)
    show ?thesis
    proof (cases "w \<in> set (registered r)")
      case True
      then have "set (registered r) \<union> set (registrants (e # es))
                 = set (registered r) \<union> set (registrants es)"
        using Register by auto
      with Cons.prems have "run cfg (Open r) (es @ post) = Failed RendezvousTimeout"
        using Register by (intro Cons.IH) simp_all
      then show ?thesis using Register True by simp
    next
      case False
      let ?r = "r\<lparr>registered := registered r @ [w]\<rparr>"
      have sets: "set (registered ?r) \<union> set (registrants es)
                  = set (registered r) \<union> set (registrants (e # es))"
        using Register by auto
      have "card (set (registered r @ [w])) \<le> card (set (registered r) \<union> set (registrants (e # es)))"
        using Register by (intro card_mono [OF fin]) auto
      with False Cons.prems(1,2) have "length (registered r) + 1 < min_nodes cfg"
        by (simp add: distinct_card)
      with assms(1) have open_: "\<not> max_nodes cfg \<le> length (registered r) + 1" by simp
      have "run cfg (Open ?r) (es @ post) = Failed RendezvousTimeout"
        using Cons.prems False Register sets by (intro Cons.IH) simp_all
      then show ?thesis using Register False open_ by simp
    qed
  next
    case Tick
    show ?thesis
    proof (cases "setup_timeout cfg \<le> elapsed r + 1")
      case True
      then show ?thesis using Tick below by (simp add: run_Failed)
    next
      case False
      let ?r = "r\<lparr>elapsed := elapsed r + 1\<rparr>"
      have "run cfg (Open ?r) (es @ post) = Failed RendezvousTimeout"
        using Cons.prems False Tick by (intro Cons.IH) simp_all
      then show ?thesis using Tick False below by simp
    qed
  qed
qed

text \<open>
  Claim C8. Take a history \<open>pre\<close> in which the setup timeout elapses (at least
  \<open>setup_timeout\<close> seconds, and at least one, pass) and fewer than \<open>min_nodes\<close> different
  workers register, with \<open>min_nodes \<le> max_nodes\<close>. Whatever happens afterwards, \<open>join\<close>
  fails with \<open>RendezvousTimeout\<close>.
\<close>

theorem join_times_out:
  assumes "min_nodes cfg \<le> max_nodes cfg"
    and "card (set (registrants pre)) < min_nodes cfg"
    and "setup_timeout cfg \<le> seconds pre"
    and "0 < seconds pre"
  shows "join cfg (pre @ post) = Failed RendezvousTimeout"
  unfolding join_def using assms by (intro run_times_out) simp_all

text \<open>
  \<open>min_nodes = 2\<close>, \<open>max_nodes = 4\<close>: one worker registers and three seconds pass; a second
  worker comes too late.
\<close>

theorem join_times_out_witness:
  "join \<lparr>min_nodes = 2, max_nodes = 4, last_call_timeout = 1, setup_timeout = 3\<rparr>
     ([Register (0::nat), Tick, Tick, Tick] @ [Register 1, Tick]) = Failed RendezvousTimeout
   \<and> card (set (registrants [Register (0::nat), Tick, Tick, Tick])) < 2
   \<and> seconds [Register (0::nat), Tick, Tick, Tick] = 3"
proof -
  let ?cfg = "\<lparr>min_nodes = 2, max_nodes = 4, last_call_timeout = 1, setup_timeout = 3\<rparr>"
  let ?pre = "[Register (0::nat), Tick, Tick, Tick]"
  have a: "min_nodes ?cfg \<le> max_nodes ?cfg" by simp
  have b: "card (set (registrants ?pre)) < min_nodes ?cfg" by simp
  have c: "setup_timeout ?cfg \<le> seconds ?pre" by simp
  have d: "0 < seconds ?pre" by simp
  from join_times_out [OF a b c d, of "[Register 1, Tick]"] b show ?thesis by simp
qed

text \<open>With enough workers in time the same configuration closes the round.\<close>

lemma join_closes_after_last_call:
  "join \<lparr>min_nodes = 2, max_nodes = 4, last_call_timeout = 1, setup_timeout = 3\<rparr>
     [Register (0::nat), Tick, Register 1, Tick] = Closed [0, 1]"
  by (simp add: join_def)

lemma join_closes_at_max_nodes:
  "join \<lparr>min_nodes = 2, max_nodes = 3, last_call_timeout = 5, setup_timeout = 3\<rparr>
     [Register (0::nat), Register 1, Register 2, Tick] = Closed [0, 1, 2]"
  by (simp add: join_def)

end
